theory Spec2Isabelle
  imports Complex_Main "HOL-Library.Word" "HOL-Library.Stream"
begin

section \<open>The dice game: values, errors and the entropy source\<close>

text \<open>
  The JavaScript numbers that occur in the core of the program are integers, \<open>NaN\<close>
  (from \<open>parseInt("")\<close> and from \<open>Math.log2\<close> of a negative number) and \<open>-Infinity\<close>
  (from \<open>Math.log2(0)\<close>). Integers are modelled exactly, where the code computes with
  doubles: a double is exact on the integers up to \<open>2^53\<close> and rounds beyond. The model
  is the program for ranges up to \<open>2^48\<close> (candidates of at most six bytes) and for sums up
  to \<open>2^53\<close>; the statements about results of the arithmetic are made within these bounds.
  The signed zero is not distinguished from zero.
\<close>

datatype number = NaN | NegInfinity | Num int

text \<open>
  The exceptions of the program: \<open>Error\<close> with its message, thrown by the parser, and the
  \<open>RangeError\<close> with code \<open>ERR_OUT_OF_RANGE\<close> that \<open>crypto.randomBytes\<close> throws for a size
  that is not a number in \<open>[0, 2^31 - 1]\<close>.
\<close>

datatype error = Error string | ERR_OUT_OF_RANGE

type_synonym byte = "8 word"

text \<open>
  The operating system's entropy source is an infinite stream of bytes; a call of
  \<open>crypto.randomBytes\<close> takes its bytes from the front and leaves the rest.
\<close>

type_synonym entropy = "byte stream"

text \<open>
  \<open>crypto.randomBytes(size)\<close> of Node.js: the size is validated first (\<open>NaN\<close>, an
  infinity or a negative number is rejected before anything is drawn), then \<open>size\<close>
  bytes are drawn. The upper limit \<open>2^31 - 1\<close> of the size is not modelled: the size
  the program asks for is at most 128 for any double.
\<close>

fun randomBytes :: "number \<Rightarrow> entropy \<Rightarrow> (error + byte list) \<times> entropy" where
  "randomBytes (Num n) s =
     (if n < 0 then (Inl ERR_OUT_OF_RANGE, s)
      else (Inr (stake (nat n) s), sdrop (nat n) s))"
| "randomBytes _ s = (Inl ERR_OUT_OF_RANGE, s)"

text \<open>\<open>buf.toString("hex")\<close>: two lower-case hexadecimal digits for every byte.\<close>

definition hexDigit :: "nat \<Rightarrow> char" where
  "hexDigit d = ''0123456789abcdef'' ! d"

definition hexByte :: "byte \<Rightarrow> string" where
  "hexByte b = [hexDigit (unat b div 16), hexDigit (unat b mod 16)]"

definition toString_hex :: "byte list \<Rightarrow> string" where
  "toString_hex buf = concat (map hexByte buf)"

text \<open>The bytes of a buffer as an unsigned big-endian integer.\<close>

definition bigEndian :: "byte list \<Rightarrow> nat" where
  "bigEndian buf = foldl (\<lambda>a b. 256 * a + unat b) 0 buf"

text \<open>
  \<open>parseInt(str, 16)\<close> on the output of \<open>toString("hex")\<close>: the longest prefix of
  hexadecimal digits is read as a number, and a string with no such prefix, the empty
  string above all, gives \<open>NaN\<close>. (White space, a sign and a \<open>0x\<close> prefix, which
  \<open>parseInt\<close> would skip, never occur in that output.) The number is the exact integer:
  it is the value of the code for strings of at most 13 digits (below \<open>2^53\<close>); the code
  rounds a longer one to a double.
\<close>

definition digitValue :: "char \<Rightarrow> nat option" where
  "digitValue c =
     (let k = (of_char c :: nat) in
      if 48 \<le> k \<and> k \<le> 57 then Some (k - 48)
      else if 97 \<le> k \<and> k \<le> 102 then Some (k - 87)
      else if 65 \<le> k \<and> k \<le> 70 then Some (k - 55)
      else None)"

definition parseInt16 :: "string \<Rightarrow> number" where
  "parseInt16 str =
     (let ds = takeWhile (\<lambda>c. digitValue c \<noteq> None) str in
      if ds = [] then NaN
      else Num (int (foldl (\<lambda>a c. 16 * a + the (digitValue c)) 0 ds)))"

text \<open>The comparison \<open>>=\<close>, the sum \<open>+\<close> and the remainder \<open>%\<close> of JavaScript numbers.
  A comparison with \<open>NaN\<close> is false; \<open>%\<close> takes the sign of the dividend. The sum is the
  exact one: it is the sum of the code while it stays within \<open>2^53\<close> in absolute value;
  the code rounds a larger one to a double.\<close>

fun js_ge :: "number \<Rightarrow> number \<Rightarrow> bool" where
  "js_ge NaN _ = False"
| "js_ge _ NaN = False"
| "js_ge (Num a) (Num b) = (b \<le> a)"
| "js_ge NegInfinity NegInfinity = True"
| "js_ge NegInfinity (Num b) = False"
| "js_ge (Num a) NegInfinity = True"

fun js_add :: "number \<Rightarrow> number \<Rightarrow> number" where
  "js_add NaN _ = NaN"
| "js_add _ NaN = NaN"
| "js_add (Num a) (Num b) = Num (a + b)"
| "js_add NegInfinity _ = NegInfinity"
| "js_add _ NegInfinity = NegInfinity"

fun js_rem :: "number \<Rightarrow> number \<Rightarrow> number" where
  "js_rem NaN _ = NaN"
| "js_rem _ NaN = NaN"
| "js_rem NegInfinity _ = NaN"
| "js_rem (Num a) NegInfinity = Num a"
| "js_rem (Num a) (Num b) =
     (if b = 0 then NaN
      else if 0 \<le> a then Num (a mod \<bar>b\<bar>)
      else Num (- ((- a) mod \<bar>b\<bar>)))"

text \<open>\<open>Number.prototype.toString()\<close>, in base ten (all digits, as JavaScript prints an
  integer below \<open>10^21\<close>).\<close>

fun decimal :: "nat \<Rightarrow> string" where
  "decimal n = (if n < 10 then [hexDigit n] else decimal (n div 10) @ [hexDigit (n mod 10)])"

declare decimal.simps [simp del]

fun number_toString :: "number \<Rightarrow> string" where
  "number_toString NaN = ''NaN''"
| "number_toString NegInfinity = ''-Infinity''"
| "number_toString (Num i) = (if i < 0 then CHR ''-'' # decimal (nat (- i)) else decimal (nat i))"

section \<open>RandomGenerator\<close>

text \<open>\<open>generateSecureRandomKey\<close>: 32 random bytes, in hexadecimal.\<close>

definition generateSecureRandomKey :: "entropy \<Rightarrow> (error + string) \<times> entropy" where
  "generateSecureRandomKey s =
     (case randomBytes (Num 32) s of
        (Inl e, s') \<Rightarrow> (Inl e, s')
      | (Inr buf, s') \<Rightarrow> (Inr (toString_hex buf), s'))"

text \<open>
  \<open>Math.ceil(Math.log2(range) / 8)\<close>: \<open>Math.log2\<close> is \<open>NaN\<close> on a negative number and
  \<open>-Infinity\<close> on zero, and both pass through the division and \<open>Math.ceil\<close>. On a
  positive range the logarithm is the real one; the rounding of the double is not modelled,
  and beyond \<open>2^48\<close> the width of the code can be one byte less than this one.
\<close>

definition byteSize :: "int \<Rightarrow> number" where
  "byteSize rng =
     (if rng < 0 then NaN
      else if rng = 0 then NegInfinity
      else Num \<lceil>log 2 (real_of_int rng) / 8\<rceil>)"

text \<open>
  The \<open>do ... while (num >= range)\<close> loop of \<open>generateSecureRandomNumber\<close>. Nothing
  bounds the number of draws, so the loop is a partial function: \<open>None\<close> is the run that
  rejects every draw of the stream. An exception of \<open>randomBytes\<close> leaves the loop.
\<close>

partial_function (option) generateSecureRandomNumber_loop ::
  "number \<Rightarrow> int \<Rightarrow> entropy \<Rightarrow> ((error + number) \<times> entropy) option" where
  "generateSecureRandomNumber_loop bs rng s =
     (case randomBytes bs s of
        (Inl e, s') \<Rightarrow> Some (Inl e, s')
      | (Inr buf, s') \<Rightarrow>
          (let num = parseInt16 (toString_hex buf) in
           if js_ge num (Num rng) then generateSecureRandomNumber_loop bs rng s'
           else Some (Inr num, s')))"

definition generateSecureRandomNumber ::
  "int \<Rightarrow> entropy \<Rightarrow> ((error + number) \<times> entropy) option" where
  "generateSecureRandomNumber rng s = generateSecureRandomNumber_loop (byteSize rng) rng s"

text \<open>
  \<open>generateHMAC\<close>: \<open>createHmac("sha3-256", key).update(message.toString()).digest("hex")\<close>.
  The Hmac object collects the data it is given; the digest is the MAC of the library,
  a parameter \<open>mac\<close> of the model (algorithm, key, data). Like the other two static
  methods it runs in the state of the \<open>crypto\<close> module, which it returns as it was.
\<close>

type_synonym mac = "string \<Rightarrow> string \<Rightarrow> string \<Rightarrow> string"

record Hmac =
  algorithm :: string
  hmacKey :: string
  hmacData :: string

definition createHmac :: "string \<Rightarrow> string \<Rightarrow> Hmac" where
  "createHmac alg key = \<lparr>algorithm = alg, hmacKey = key, hmacData = []\<rparr>"

definition Hmac_update :: "Hmac \<Rightarrow> string \<Rightarrow> Hmac" where
  "Hmac_update h d = h\<lparr>hmacData := hmacData h @ d\<rparr>"

definition Hmac_digest :: "mac \<Rightarrow> Hmac \<Rightarrow> string" where
  "Hmac_digest m h = m (algorithm h) (hmacKey h) (hmacData h)"

definition generateHMAC :: "mac \<Rightarrow> string \<Rightarrow> number \<Rightarrow> entropy \<Rightarrow> string \<times> entropy" where
  "generateHMAC m key message s =
     (Hmac_digest m (Hmac_update (createHmac ''sha3-256'' key) (number_toString message)), s)"

section \<open>FairNumberProtocol\<close>

record FairNumberProtocol =
  range' :: int
  secretKey :: string
  computerNumber :: number
  hmac :: string

text \<open>The constructor: the key, then the number, then the HMAC of the number under the key.\<close>

definition FairNumberProtocol_new ::
  "mac \<Rightarrow> int \<Rightarrow> entropy \<Rightarrow> ((error + FairNumberProtocol) \<times> entropy) option" where
  "FairNumberProtocol_new m rng s =
     (case generateSecureRandomKey s of
        (Inl e, s1) \<Rightarrow> Some (Inl e, s1)
      | (Inr key, s1) \<Rightarrow>
          (case generateSecureRandomNumber rng s1 of
             None \<Rightarrow> None
           | Some (Inl e, s2) \<Rightarrow> Some (Inl e, s2)
           | Some (Inr num, s2) \<Rightarrow>
               (case generateHMAC m key num s2 of
                  (h, s3) \<Rightarrow>
                    Some (Inr \<lparr>range' = rng, secretKey = key, computerNumber = num, hmac = h\<rparr>,
                          s3))))"

text \<open>The methods take the object and return their result with the object after the call.\<close>

definition getHMAC :: "FairNumberProtocol \<Rightarrow> string \<times> FairNumberProtocol" where
  "getHMAC this = (hmac this, this)"

definition revealKey :: "FairNumberProtocol \<Rightarrow> string \<times> FairNumberProtocol" where
  "revealKey this = (secretKey this, this)"

definition getComputerNumber :: "FairNumberProtocol \<Rightarrow> number \<times> FairNumberProtocol" where
  "getComputerNumber this = (computerNumber this, this)"

definition calculateResult :: "FairNumberProtocol \<Rightarrow> int \<Rightarrow> number \<times> FairNumberProtocol" where
  "calculateResult this userNumber =
     (js_rem (js_add (computerNumber this) (Num userNumber)) (Num (range' this)), this)"

text \<open>
  A caller's sequence of method calls on one instance. A call returns a value or throws;
  a thrown exception ends the sequence.
\<close>

datatype call = GetHMAC | RevealKey | GetComputerNumber | CalculateResult int

datatype jsvalue = JString string | JNumber number

fun invoke :: "call \<Rightarrow> FairNumberProtocol \<Rightarrow> (error + jsvalue) \<times> FairNumberProtocol" where
  "invoke GetHMAC this = (case getHMAC this of (v, this') \<Rightarrow> (Inr (JString v), this'))"
| "invoke RevealKey this = (case revealKey this of (v, this') \<Rightarrow> (Inr (JString v), this'))"
| "invoke GetComputerNumber this =
     (case getComputerNumber this of (v, this') \<Rightarrow> (Inr (JNumber v), this'))"
| "invoke (CalculateResult u) this =
     (case calculateResult this u of (v, this') \<Rightarrow> (Inr (JNumber v), this'))"

fun invoke_all ::
  "call list \<Rightarrow> FairNumberProtocol \<Rightarrow> (error + jsvalue list) \<times> FairNumberProtocol" where
  "invoke_all [] this = (Inr [], this)"
| "invoke_all (c # cs) this =
     (case invoke c this of
        (Inl e, this') \<Rightarrow> (Inl e, this')
      | (Inr v, this') \<Rightarrow>
          (case invoke_all cs this' of
             (Inl e, this'') \<Rightarrow> (Inl e, this'')
           | (Inr vs, this'') \<Rightarrow> (Inr (v # vs), this'')))"

section \<open>Dice\<close>

record 'a Dice =
  values' :: "'a list"

text \<open>The constructor stores the list it is given.\<close>

definition Dice_new :: "'a list \<Rightarrow> error + 'a Dice" where
  "Dice_new vs = Inr \<lparr>values' = vs\<rparr>"

text \<open>
  \<open>values[randomIndex]\<close>: an index that is not an integer inside the array, \<open>NaN\<close> above
  all, reads \<open>undefined\<close>, which is \<open>None\<close> here.
\<close>

fun array_get :: "'a list \<Rightarrow> number \<Rightarrow> 'a option" where
  "array_get xs (Num i) = (if 0 \<le> i \<and> i < int (length xs) then Some (xs ! nat i) else None)"
| "array_get xs _ = None"

definition roll :: "'a Dice \<Rightarrow> entropy \<Rightarrow> ((error + 'a option) \<times> entropy) option" where
  "roll this s =
     (case generateSecureRandomNumber (int (length (values' this))) s of
        None \<Rightarrow> None
      | Some (Inl e, s') \<Rightarrow> Some (Inl e, s')
      | Some (Inr randomIndex, s') \<Rightarrow> Some (Inr (array_get (values' this) randomIndex), s'))"

section \<open>DiceConfigParser and the constructor of GameFlow\<close>

text \<open>\<open>arg.split(",")\<close>: the pieces between the separators; the empty string has one piece.\<close>

fun split :: "char \<Rightarrow> string \<Rightarrow> string list" where
  "split sep [] = [[]]"
| "split sep (c # cs) =
     (if c = sep then [] # split sep cs
      else (c # hd (split sep cs)) # tl (split sep cs))"

text \<open>\<open>xs.map(f)\<close> for an \<open>f\<close> that may throw: the first exception, from left to right, ends it.\<close>

fun map_throw :: "('a \<Rightarrow> error + 'b) \<Rightarrow> 'a list \<Rightarrow> error + 'b list" where
  "map_throw f [] = Inr []"
| "map_throw f (x # xs) =
     (case f x of
        Inl e \<Rightarrow> Inl e
      | Inr y \<Rightarrow> (case map_throw f xs of Inl e \<Rightarrow> Inl e | Inr ys \<Rightarrow> Inr (y # ys)))"

text \<open>
  \<open>parseDiceConfig\<close>. The conversion \<open>Number\<close> of a string and the test \<open>isNaN\<close> are
  built into the language; they are parameters here, and the faces have any type.
\<close>

definition parseDiceConfig ::
  "(string \<Rightarrow> 'n) \<Rightarrow> ('n \<Rightarrow> bool) \<Rightarrow> string list \<Rightarrow> error + 'n list list" where
  "parseDiceConfig Number isNaN args =
     (if length args < 3
      then Inl (Error ''Invalid number of dice. Provide at least 3 sets of 6 integers.'')
      else map_throw
        (\<lambda>arg.
           let dice = map Number (split CHR '','' arg) in
           if length dice \<noteq> 6 \<or> list_ex isNaN dice
           then Inl (Error (''Invalid dice format: '' @ [CHR 0x22] @ arg @ [CHR 0x22] @
                  ''. Each dice should contain exactly 6 integers.''))
           else Inr dice)
        args)"

record 'a GameFlow =
  diceSet :: "'a Dice list"

definition GameFlow_new :: "'a list list \<Rightarrow> error + 'a GameFlow" where
  "GameFlow_new diceConfigurations =
     (case map_throw Dice_new diceConfigurations of
        Inl e \<Rightarrow> Inl e
      | Inr ds \<Rightarrow> Inr \<lparr>diceSet = ds\<rparr>)"

text \<open>The first two statements of \<open>main\<close>: the dice of the command line, then the game.\<close>

definition main_game ::
  "(string \<Rightarrow> 'n) \<Rightarrow> ('n \<Rightarrow> bool) \<Rightarrow> string list \<Rightarrow> error + 'n GameFlow" where
  "main_game Number isNaN args =
     (case parseDiceConfig Number isNaN args of
        Inl e \<Rightarrow> Inl e
      | Inr diceConfigurations \<Rightarrow> GameFlow_new diceConfigurations)"

section \<open>Instances for the examples\<close>

text \<open>
  \<open>Number_decimal\<close> is \<open>Number\<close> on the empty string and on the strings of decimal
  digits; any other string is given \<open>NaN\<close>, which is the answer of JavaScript only where
  the string is no numeric literal, and the examples use no other. \<open>number_isNaN\<close> is
  \<open>isNaN\<close> on the numbers above. \<open>mac0\<close> stands for the MAC of the library in the
  examples; nothing is assumed of it.
\<close>

definition Number_decimal :: "string \<Rightarrow> number" where
  "Number_decimal str =
     (if str = [] then Num 0
      else if list_all (\<lambda>c. 48 \<le> (of_char c :: nat) \<and> (of_char c :: nat) \<le> 57) str
      then Num (int (foldl (\<lambda>a c. 10 * a + (of_char c - 48)) 0 str))
      else NaN)"

definition number_isNaN :: "number \<Rightarrow> bool" where
  "number_isNaN x = (x = NaN)"

definition mac0 :: mac where
  "mac0 alg key msg = alg @ key @ msg"

text \<open>
  The instance that the constructor returns for the range 2 on the entropy stream of
  zero bytes (\<open>protocol0_constructed\<close> below).
\<close>

definition protocol0 :: FairNumberProtocol where
  "protocol0 =
     \<lparr>range' = 2, secretKey = toString_hex (replicate 32 0), computerNumber = Num 0,
      hmac = mac0 ''sha3-256'' (toString_hex (replicate 32 0)) ''0''\<rparr>"

section \<open>The byte width\<close>

lemma byteSize_one: "byteSize 1 = Num 0"
  by (simp add: byteSize_def)

lemma byteSize_bounds:
  assumes "1 \<le> n"
  shows "\<exists>w. byteSize n = Num (int w) \<and> n \<le> 256 ^ w \<and> 256 ^ w < 256 * n"
proof -
  define x where "x = log 2 (real_of_int n) / 8"
  define c where "c = \<lceil>x\<rceil>"
  have npos: "0 < real_of_int n" using assms by simp
  have "0 \<le> log 2 (real_of_int n)" using assms by simp
  then have x0: "0 \<le> x" by (simp add: x_def)
  then have c0: "0 \<le> c" by (simp add: c_def)
  define w where "w = nat c"
  have cw: "c = int w" using c0 by (simp add: w_def)
  have bs: "byteSize n = Num (int w)"
    using assms by (simp add: byteSize_def cw [symmetric] c_def x_def)
  have pw: "2 powr (8 * real_of_int c) = 256 ^ w"
  proof -
    have "2 powr (8 * real_of_int c) = 2 powr (real (8 * w))" by (simp add: cw)
    also have "\<dots> = 2 ^ (8 * w)" by (simp only: powr_realpow zero_less_numeral)
    also have "\<dots> = (2 ^ 8) ^ w" by (simp only: power_mult)
    finally show ?thesis by simp
  qed
  have "x \<le> real_of_int c" by (simp add: c_def)
  then have "log 2 (real_of_int n) \<le> 8 * real_of_int c" by (simp add: x_def)
  then have "real_of_int n \<le> 2 powr (8 * real_of_int c)"
    using npos by (simp add: log_le_iff)
  then have le: "real_of_int n \<le> 256 ^ w" by (simp only: pw)
  have "real_of_int c < x + 1" unfolding c_def by linarith
  then have "8 * real_of_int c - 8 < log 2 (real_of_int n)" by (simp add: x_def)
  then have "2 powr (8 * real_of_int c - 8) < real_of_int n"
    using npos by (simp add: less_log_iff)
  then have "2 powr (8 * real_of_int c) / 2 powr 8 < real_of_int n"
    by (simp only: powr_diff)
  then have "2 powr (8 * real_of_int c) < 256 * real_of_int n"
    by (simp add: field_simps)
  then have lt: "256 ^ w < 256 * real_of_int n" by (simp only: pw)
  have le': "n \<le> 256 ^ w"
  proof -
    have "real_of_int n \<le> real_of_int (256 ^ w)" using le by simp
    then show ?thesis by (simp only: of_int_le_iff)
  qed
  have lt': "256 ^ w < 256 * n"
  proof -
    have "real_of_int (256 ^ w) < real_of_int (256 * n)" using lt by simp
    then show ?thesis by (simp only: of_int_less_iff)
  qed
  from bs le' lt' show ?thesis by blast
qed

lemma byteSize_eqI:
  assumes "1 \<le> n" "n \<le> 256 ^ w" "256 ^ w < 256 * n"
  shows "byteSize n = Num (int w)"
proof -
  obtain v where v: "byteSize n = Num (int v)" "n \<le> 256 ^ v" "256 ^ v < 256 * n"
    using byteSize_bounds [OF assms(1)] by blast
  have "v = w"
  proof (rule ccontr)
    assume "v \<noteq> w"
    then consider "v < w" | "w < v" by linarith
    then show False
    proof cases
      case 1
      then have "Suc v \<le> w" by simp
      then have "(256::int) ^ Suc v \<le> 256 ^ w" by (rule power_increasing) simp
      with v(2) assms(3) show False by simp
    next
      case 2
      then have "Suc w \<le> v" by simp
      then have "(256::int) ^ Suc w \<le> 256 ^ v" by (rule power_increasing) simp
      with assms(2) v(3) show False by simp
    qed
  qed
  with v(1) show ?thesis by simp
qed

lemma byteSize_2: "byteSize 2 = Num 1"
  using byteSize_eqI [of 2 1] by simp

lemma byteSize_6: "byteSize 6 = Num 1"
  using byteSize_eqI [of 6 1] by simp

lemma byteSize_257: "byteSize 257 = Num 2"
  using byteSize_eqI [of 257 2] by simp

section \<open>Hexadecimal strings and \<open>parseInt\<close>\<close>

lemma digitValue_hexDigit: "d < 16 \<Longrightarrow> digitValue (hexDigit d) = Some d"
proof -
  have "\<forall>d<16. digitValue (hexDigit d) = Some d"
    by (simp add: eval_nat_numeral All_less_Suc digitValue_def hexDigit_def)
  then show "d < 16 \<Longrightarrow> digitValue (hexDigit d) = Some d" by blast
qed

lemma unat_byte_div: "unat (b :: byte) div 16 < 16"
proof -
  have "unat b < 256" using unsigned_less [of b] by simp
  then show ?thesis by simp
qed

lemma digitValue_hexByte:
  "map digitValue (hexByte b) = [Some (unat b div 16), Some (unat b mod 16)]"
  by (simp add: hexByte_def digitValue_hexDigit unat_byte_div)

lemma toString_hex_digits: "c \<in> set (toString_hex buf) \<Longrightarrow> digitValue c \<noteq> None"
proof -
  assume "c \<in> set (toString_hex buf)"
  then obtain b where "c \<in> set (hexByte b)"
    by (auto simp: toString_hex_def)
  then have "digitValue c \<in> set (map digitValue (hexByte b))" by simp
  then show ?thesis by (auto simp: digitValue_hexByte)
qed

lemma takeWhile_toString_hex:
  "takeWhile (\<lambda>c. digitValue c \<noteq> None) (toString_hex buf) = toString_hex buf"
  by (rule takeWhile_eq_all_conv [THEN iffD2]) (simp add: toString_hex_digits)

lemma foldl_hexByte:
  "foldl (\<lambda>a c. 16 * a + the (digitValue c)) a (hexByte b) = 256 * a + unat b"
proof -
  have h: "hexByte b = [hexDigit (unat b div 16), hexDigit (unat b mod 16)]"
    by (simp add: hexByte_def)
  show ?thesis
    by (simp add: h digitValue_hexDigit unat_byte_div)
qed

lemma foldl_toString_hex:
  "foldl (\<lambda>a c. 16 * a + the (digitValue c)) a (toString_hex buf)
     = foldl (\<lambda>a b. 256 * a + unat b) a buf"
proof (induction buf arbitrary: a)
  case Nil
  then show ?case by (simp add: toString_hex_def)
next
  case (Cons b buf)
  have "toString_hex (b # buf) = hexByte b @ toString_hex buf"
    by (simp add: toString_hex_def)
  then show ?case by (simp add: foldl_hexByte Cons.IH)
qed

lemma toString_hex_Nil_iff: "toString_hex buf = [] \<longleftrightarrow> buf = []"
  by (cases buf) (simp_all add: toString_hex_def hexByte_def)

lemma parseInt16_toString_hex:
  "parseInt16 (toString_hex buf) = (if buf = [] then NaN else Num (int (bigEndian buf)))"
  unfolding parseInt16_def takeWhile_toString_hex
  by (simp add: toString_hex_Nil_iff foldl_toString_hex bigEndian_def)

lemma length_toString_hex: "length (toString_hex buf) = 2 * length buf"
  by (induction buf) (simp_all add: toString_hex_def hexByte_def)

lemma bigEndian_snoc: "bigEndian (buf @ [b]) = 256 * bigEndian buf + unat b"
  by (simp add: bigEndian_def)

lemma bigEndian_bound: "bigEndian buf < 256 ^ length buf"
proof (induction buf rule: rev_induct)
  case Nil
  then show ?case by (simp add: bigEndian_def)
next
  case (snoc b buf)
  have "unat b < 256" using unsigned_less [of b] by simp
  with snoc.IH show ?case by (simp add: bigEndian_snoc)
qed

subsection \<open>The rejection loop\<close>

lemma loop_accepts_aux:
  assumes "generateSecureRandomNumber_loop bs rng s = Some r"
  shows "\<forall>num s'. r = (Inr num, s') \<longrightarrow> \<not> js_ge num (Num rng)"
  using assms
proof (induction rule: generateSecureRandomNumber_loop.raw_induct [rotated, consumes 1])
  case (1 loop bs rng s r)
  then show ?case
    by (auto split: prod.splits sum.splits if_splits simp: Let_def)
qed

lemma loop_accepts:
  assumes "generateSecureRandomNumber_loop bs rng s = Some (Inr num, s')"
  shows "\<not> js_ge num (Num rng)"
  using loop_accepts_aux [OF assms] by blast

lemma loop_result_aux:
  assumes "generateSecureRandomNumber_loop bs rng s = Some x"
  shows "\<forall>w. bs = Num (int w) \<longrightarrow>
           (\<exists>buf. length buf = w \<and> fst x = Inr (parseInt16 (toString_hex buf)))"
  using assms
proof (induction rule: generateSecureRandomNumber_loop.raw_induct [rotated, consumes 1])
  case (1 loop bs rng s x)
  show ?case
  proof (intro allI impI)
    fix w assume bs: "bs = Num (int w)"
    show "\<exists>buf. length buf = w \<and> fst x = Inr (parseInt16 (toString_hex buf))"
    proof (cases "js_ge (parseInt16 (toString_hex (stake w s))) (Num rng)")
      case True
      with 1(2) bs have "loop bs rng (sdrop w s) = Some x" by simp
      from 1(1) [OF this] bs show ?thesis by blast
    next
      case False
      with 1(2) bs have "x = (Inr (parseInt16 (toString_hex (stake w s))), sdrop w s)"
        by simp
      then have "length (stake w s) = w \<and>
                 fst x = Inr (parseInt16 (toString_hex (stake w s)))" by simp
      then show ?thesis by blast
    qed
  qed
qed

lemma loop_result:
  assumes "generateSecureRandomNumber_loop (Num (int w)) rng s = Some (r, s')"
  shows "\<exists>buf. length buf = w \<and> r = Inr (parseInt16 (toString_hex buf))"
  using loop_result_aux [OF assms] by simp

lemma loop_terminates:
  assumes "\<not> js_ge (parseInt16 (toString_hex (stake w (sdrop (k * w) s)))) (Num rng)"
  shows "\<exists>j\<le>k. generateSecureRandomNumber_loop (Num (int w)) rng s =
           Some (Inr (parseInt16 (toString_hex (stake w (sdrop (j * w) s)))),
                 sdrop (Suc j * w) s)"
  using assms
proof (induction k arbitrary: s)
  case 0
  then show ?case
    by (subst generateSecureRandomNumber_loop.simps) simp
next
  case (Suc k)
  show ?case
  proof (cases "js_ge (parseInt16 (toString_hex (stake w s))) (Num rng)")
    case False
    then have "generateSecureRandomNumber_loop (Num (int w)) rng s =
           Some (Inr (parseInt16 (toString_hex (stake w (sdrop (0 * w) s)))),
                 sdrop (Suc 0 * w) s)"
      by (subst generateSecureRandomNumber_loop.simps) simp
    then show ?thesis by blast
  next
    case True
    have step: "generateSecureRandomNumber_loop (Num (int w)) rng s =
                generateSecureRandomNumber_loop (Num (int w)) rng (sdrop w s)"
      using True by (subst generateSecureRandomNumber_loop.simps) simp
    have d: "sdrop (k * w) (sdrop w s) = sdrop (Suc k * w) s"
      by (simp add: add.commute)
    from Suc.prems have "\<not> js_ge (parseInt16 (toString_hex (stake w (sdrop (k * w) (sdrop w s))))) (Num rng)"
      by (simp add: add.commute)
    from Suc.IH [OF this] obtain j where j: "j \<le> k"
      "generateSecureRandomNumber_loop (Num (int w)) rng (sdrop w s) =
           Some (Inr (parseInt16 (toString_hex (stake w (sdrop (j * w) (sdrop w s))))),
                 sdrop (Suc j * w) (sdrop w s))" by blast
    have d1: "sdrop (j * w) (sdrop w s) = sdrop (Suc j * w) s"
      by (simp add: add.commute)
    have d2: "sdrop (Suc j * w) (sdrop w s) = sdrop (Suc (Suc j) * w) s"
      by (simp add: add.commute)
    from j have "Suc j \<le> Suc k \<and> generateSecureRandomNumber_loop (Num (int w)) rng s =
           Some (Inr (parseInt16 (toString_hex (stake w (sdrop (Suc j * w) s)))),
                 sdrop (Suc (Suc j) * w) s)"
      unfolding step d1 d2 by simp
    then show ?thesis by blast
  qed
qed

section \<open>The random number\<close>

lemma stake_sconst: "stake n (sconst x) = replicate n x"
  by (simp add: map_replicate_trivial)

lemma sdrop_sconst: "sdrop n (sconst x) = sconst x"
  by simp

lemma bigEndian_zero: "bigEndian [0] = 0"
  by (simp add: bigEndian_def)

lemma generateSecureRandomNumber_2_zero:
  "generateSecureRandomNumber 2 (sconst 0) = Some (Inr (Num 0), sconst 0)"
  unfolding generateSecureRandomNumber_def byteSize_2
  by (subst generateSecureRandomNumber_loop.simps)
     (simp add: stake_sconst parseInt16_toString_hex bigEndian_zero del: stake_siterate)

lemma number_toString_zero: "number_toString (Num 0) = ''0''"
  by (simp add: decimal.simps [of 0] hexDigit_def)

lemma protocol0_constructed:
  "FairNumberProtocol_new mac0 2 (sconst 0) = Some (Inr protocol0, sconst 0)"
  by (simp add: FairNumberProtocol_new_def generateSecureRandomKey_def stake_sconst
      generateSecureRandomNumber_2_zero generateHMAC_def Hmac_digest_def Hmac_update_def
      createHmac_def number_toString_zero protocol0_def del: stake_siterate number_toString.simps)

lemma generateSecureRandomNumber_error:
  assumes "n \<le> 0"
  shows "generateSecureRandomNumber n s = Some (Inl ERR_OUT_OF_RANGE, s)"
proof (cases "n = 0")
  case True
  then show ?thesis
    unfolding generateSecureRandomNumber_def
    by (subst generateSecureRandomNumber_loop.simps) (simp add: byteSize_def)
next
  case False
  with assms have "n < 0" by simp
  then show ?thesis
    unfolding generateSecureRandomNumber_def
    by (subst generateSecureRandomNumber_loop.simps) (simp add: byteSize_def)
qed

lemma generateSecureRandomNumber_result:
  assumes "generateSecureRandomNumber n s = Some (Inr (Num c), s')"
  shows "0 \<le> c \<and> c < n"
proof -
  have lp: "generateSecureRandomNumber_loop (byteSize n) n s = Some (Inr (Num c), s')"
    using assms by (simp add: generateSecureRandomNumber_def)
  have "\<not> js_ge (Num c) (Num n)" using loop_accepts [OF lp] .
  then have lt: "c < n" by simp
  have "1 \<le> n"
  proof (rule ccontr)
    assume "\<not> 1 \<le> n"
    then have "n \<le> 0" by simp
    from generateSecureRandomNumber_error [OF this, of s] assms show False by simp
  qed
  then obtain w where w: "byteSize n = Num (int w)"
    using byteSize_bounds by blast
  from lp obtain buf where "Inr (Num c) = (Inr (parseInt16 (toString_hex buf)) :: error + number)"
    using loop_result [of w n s "Inr (Num c)" s'] by (auto simp: w)
  then have "0 \<le> c"
    by (simp add: parseInt16_toString_hex split: if_splits)
  with lt show ?thesis by simp
qed

lemma generateSecureRandomNumber_in_range:
  assumes "2 \<le> n" and "generateSecureRandomNumber n s = Some (r, s')"
  shows "\<exists>c. r = Inr (Num c) \<and> 0 \<le> c \<and> c < n"
proof -
  obtain w where w: "byteSize n = Num (int w)" "n \<le> 256 ^ w"
    using byteSize_bounds [of n] assms(1) by auto
  have "w \<noteq> 0" using w(2) assms(1) by (cases w) simp_all
  have lp: "generateSecureRandomNumber_loop (Num (int w)) n s = Some (r, s')"
    using assms(2) by (simp add: generateSecureRandomNumber_def w)
  from loop_result [OF lp] obtain buf where buf: "length buf = w"
    "r = Inr (parseInt16 (toString_hex buf))" by blast
  from buf(1) \<open>w \<noteq> 0\<close> have "buf \<noteq> []" by auto
  then have r: "r = Inr (Num (int (bigEndian buf)))"
    by (simp add: buf(2) parseInt16_toString_hex)
  with assms(2) have "generateSecureRandomNumber n s = Some (Inr (Num (int (bigEndian buf))), s')"
    by simp
  from generateSecureRandomNumber_result [OF this] r show ?thesis by blast
qed

lemma generateSecureRandomNumber_terminates:
  assumes "2 \<le> n" and "byteSize n = Num (int w)"
    and "int (bigEndian (stake w (sdrop (k * w) s))) < n"
  shows "\<exists>c s'. generateSecureRandomNumber n s = Some (Inr (Num c), s') \<and> 0 \<le> c \<and> c < n"
proof -
  have "w \<noteq> 0"
  proof
    assume "w = 0"
    with assms(2) have "byteSize n = Num 0" by simp
    moreover obtain v where "byteSize n = Num (int v)" "n \<le> 256 ^ v"
      using byteSize_bounds [of n] assms(1) by auto
    ultimately show False using assms(1) by simp
  qed
  then have ne: "0 < w" by simp
  have "\<not> js_ge (parseInt16 (toString_hex (stake w (sdrop (k * w) s)))) (Num n)"
    using assms(3) by (simp add: parseInt16_toString_hex ne)
  from loop_terminates [OF this] obtain j where
    "generateSecureRandomNumber_loop (Num (int w)) n s =
       Some (Inr (parseInt16 (toString_hex (stake w (sdrop (j * w) s)))), sdrop (Suc j * w) s)"
    by blast
  then have g: "generateSecureRandomNumber n s =
       Some (Inr (Num (int (bigEndian (stake w (sdrop (j * w) s))))), sdrop (Suc j * w) s)"
    by (simp add: generateSecureRandomNumber_def assms(2) parseInt16_toString_hex ne)
  from generateSecureRandomNumber_result [OF g] g show ?thesis by blast
qed

lemma generateSecureRandomNumber_one:
  "generateSecureRandomNumber 1 s = Some (Inr NaN, s)"
  unfolding generateSecureRandomNumber_def byteSize_one
  by (subst generateSecureRandomNumber_loop.simps)
     (simp add: toString_hex_def parseInt16_def)

text \<open>
  C1, at the range 1. The claim: for every range \<open>n \<ge> 1\<close> the sampler terminates with
  an integer in \<open>[0, n)\<close>, and \<open>sample(1)\<close> is always 0. For a range \<open>n \<ge> 2\<close> the code
  does so on every entropy stream that holds a draw below \<open>n\<close>
  (\<open>generateSecureRandomNumber_terminates\<close>, \<open>generateSecureRandomNumber_in_range\<close>).
  For the range 1 it does not: the byte width is 0, the empty buffer prints as the empty
  string, \<open>parseInt\<close> of it is \<open>NaN\<close>, and \<open>NaN >= 1\<close> is false, so
  \<open>generateSecureRandomNumber(1)\<close> returns \<open>NaN\<close> at the first pass of the loop, on every
  entropy stream and with no byte drawn; it never returns 0.
\<close>

theorem generateSecureRandomNumber_one_NaN:
  "generateSecureRandomNumber 1 s = Some (Inr NaN, s) \<and>
   generateSecureRandomNumber 1 s \<noteq> Some (Inr (Num 0), s')"
  by (simp add: generateSecureRandomNumber_one)

section \<open>The protocol result\<close>


lemma FairNumberProtocol_new_terminates:
  assumes "2 \<le> n" and "byteSize n = Num (int w)"
    and "int (bigEndian (stake w (sdrop (k * w) (sdrop 32 s)))) < n"
  shows "\<exists>p s'. FairNumberProtocol_new m n s = Some (Inr p, s')"
proof -
  obtain c s' where
    "generateSecureRandomNumber n (sdrop 32 s) = Some (Inr (Num c), s')"
    using generateSecureRandomNumber_terminates [OF assms] by blast
  then show ?thesis
    by (simp add: FairNumberProtocol_new_def generateSecureRandomKey_def generateHMAC_def)
qed




section \<open>The candidate space\<close>

lemma bigEndian_rev_inj:
  "length xs = length ys \<Longrightarrow> bigEndian (rev xs) = bigEndian (rev ys) \<Longrightarrow> xs = ys"
proof (induction xs ys rule: list_induct2)
  case Nil
  then show ?case by simp
next
  case (Cons x xs y ys)
  have bx: "unat x < 256" using unsigned_less [of x] by simp
  have by': "unat y < 256" using unsigned_less [of y] by simp
  from Cons.prems have e: "256 * bigEndian (rev xs) + unat x = 256 * bigEndian (rev ys) + unat y"
    by (simp add: bigEndian_snoc)
  have "(256 * bigEndian (rev xs) + unat x) div 256 = bigEndian (rev xs)"
    using bx by simp
  moreover have "(256 * bigEndian (rev ys) + unat y) div 256 = bigEndian (rev ys)"
    using by' by simp
  ultimately have a: "bigEndian (rev xs) = bigEndian (rev ys)" using e by simp
  with e have "unat x = unat y" by simp
  then have "x = y" by (simp add: word_unat_eq_iff)
  with Cons.IH [OF a] show ?case by simp
qed

lemma bigEndian_inj_on: "inj_on bigEndian {buf. length buf = w}"
proof (rule inj_onI)
  fix xs ys :: "byte list"
  assume "xs \<in> {buf. length buf = w}" "ys \<in> {buf. length buf = w}"
    and e: "bigEndian xs = bigEndian ys"
  then have "length (rev xs) = length (rev ys)" by simp
  moreover from e have "bigEndian (rev (rev xs)) = bigEndian (rev (rev ys))" by simp
  ultimately have "rev xs = rev ys" by (rule bigEndian_rev_inj)
  then show "xs = ys" by simp
qed

lemma finite_buffers: "finite {buf :: byte list. length buf = w}"
  using finite_lists_length_eq [of "UNIV :: byte set" w] by simp

lemma card_buffers: "card {buf :: byte list. length buf = w} = 256 ^ w"
  using card_lists_length_eq [of "UNIV :: byte set" w] by (simp add: card_word)

lemma bigEndian_image: "bigEndian ` {buf. length buf = w} = {..<256 ^ w}"
proof (rule card_subset_eq)
  show "finite {..<(256::nat) ^ w}" by simp
  show "bigEndian ` {buf. length buf = w} \<subseteq> {..<256 ^ w}"
    using bigEndian_bound by auto
  show "card (bigEndian ` {buf. length buf = w}) = card {..<(256::nat) ^ w}"
    by (simp add: card_image bigEndian_inj_on card_buffers)
qed

lemma card_below:
  assumes "k \<le> 256 ^ w"
  shows "card {buf. length buf = w \<and> bigEndian buf < k} = k"
proof -
  let ?S = "{buf. length buf = w \<and> bigEndian buf < k}"
  have sub: "?S \<subseteq> {buf. length buf = w}" by auto
  have inj: "inj_on bigEndian ?S" by (rule inj_on_subset [OF bigEndian_inj_on sub])
  have "bigEndian ` ?S = {..<k}"
  proof
    show "bigEndian ` ?S \<subseteq> {..<k}" by auto
    show "{..<k} \<subseteq> bigEndian ` ?S"
    proof
      fix j assume "j \<in> {..<k}"
      then have jk: "j < k" by simp
      with assms have "j \<in> {..<(256::nat) ^ w}" by simp
      then have "j \<in> bigEndian ` {buf. length buf = w}" by (simp only: bigEndian_image)
      then obtain buf where "length buf = w" "j = bigEndian buf" by auto
      with jk show "j \<in> bigEndian ` ?S" by auto
    qed
  qed
  then have "card (bigEndian ` ?S) = k" by simp
  then show ?thesis by (simp add: card_image inj)
qed

lemma card_accepted:
  assumes "1 \<le> n" and "n \<le> 256 ^ w" and "w = 0 \<longrightarrow> n = 1"
  shows "card {buf. length buf = w \<and> \<not> js_ge (parseInt16 (toString_hex buf)) (Num n)} = nat n"
proof (cases "w = 0")
  case True
  have "{buf :: byte list. length buf = w \<and> \<not> js_ge (parseInt16 (toString_hex buf)) (Num n)} = {[]}"
    using True by (auto simp: parseInt16_toString_hex)
  with True assms(3) show ?thesis by simp
next
  case False
  have "{buf :: byte list. length buf = w \<and> \<not> js_ge (parseInt16 (toString_hex buf)) (Num n)}
        = {buf. length buf = w \<and> bigEndian buf < nat n}"
    using False assms(1) by (auto simp: parseInt16_toString_hex)
  moreover have "nat n \<le> 256 ^ w"
  proof -
    have "n \<le> int (256 ^ w)" using assms(2) by simp
    then show ?thesis by linarith
  qed
  ultimately show ?thesis by (simp add: card_below)
qed

lemma generateSecureRandomNumber_pass:
  assumes "byteSize n = Num (int w)"
  shows "generateSecureRandomNumber n s =
           (if js_ge (parseInt16 (toString_hex (stake w s))) (Num n)
            then generateSecureRandomNumber n (sdrop w s)
            else Some (Inr (parseInt16 (toString_hex (stake w s))), sdrop w s))"
  unfolding generateSecureRandomNumber_def assms
  by (subst generateSecureRandomNumber_loop.simps) simp

text \<open>
  C3 as stated fails: for the range 2 the byte width is 1, the candidate space has
  \<open>2^8 = 256\<close> values, and 256 is not below \<open>2 * 2\<close>: a draw is accepted with
  probability \<open>2/256\<close>.
\<close>

theorem byteSize_candidate_space_counterexample:
  "byteSize 2 = Num 1 \<and> \<not> ((2::int) ^ (8 * 1) < 2 * 2)"
  by (simp add: byteSize_2)

text \<open>
  C3, amended: for every range \<open>1 \<le> n \<le> 2^48\<close>, with the byte width
  \<open>w = ceil(log2(n)/8)\<close>, every pass of the loop draws \<open>w\<close> bytes and returns the
  candidate exactly when \<open>candidate >= n\<close> is false; of the \<open>2^(8*w)\<close> buffers of \<open>w\<close>
  bytes exactly \<open>n\<close> are accepted, and \<open>n \<le> 2^(8*w) < 256 * n\<close>. A draw is accepted with
  probability \<open>n / 2^(8*w)\<close>, which is above \<open>1/256\<close> (not above \<open>1/2\<close>), so the
  expected number of draws is below 256 (not below 2).
\<close>

theorem byteSize_candidate_space:
  assumes "1 \<le> n" and "n \<le> 2 ^ 48"
  shows "\<exists>w. byteSize n = Num (int w) \<and>
             generateSecureRandomNumber n s =
               (if js_ge (parseInt16 (toString_hex (stake w s))) (Num n)
                then generateSecureRandomNumber n (sdrop w s)
                else Some (Inr (parseInt16 (toString_hex (stake w s))), sdrop w s)) \<and>
             card {buf :: byte list. length buf = w} = 2 ^ (8 * w) \<and>
             card {buf :: byte list. length buf = w \<and>
                     \<not> js_ge (parseInt16 (toString_hex buf)) (Num n)} = nat n \<and>
             n \<le> 2 ^ (8 * w) \<and> 2 ^ (8 * w) < 256 * n"
proof -
  obtain w where w: "byteSize n = Num (int w)" "n \<le> 256 ^ w" "256 ^ w < 256 * n"
    using byteSize_bounds [OF assms(1)] by blast
  have p: "(2::int) ^ (8 * v) = 256 ^ v" for v
    by (simp add: power_mult)
  have q: "(2::nat) ^ (8 * v) = 256 ^ v" for v
    by (simp add: power_mult)
  have "w = 0 \<longrightarrow> n = 1" using w(2) assms(1) by auto
  from card_accepted [OF assms(1) w(2) this] generateSecureRandomNumber_pass [OF w(1), of s]
    card_buffers [of w] w
  show ?thesis unfolding p q by blast
qed

theorem byteSize_candidate_space_witness:
  "(1::int) \<le> 6 \<and> (6::int) \<le> 2 ^ 48 \<and>
   (\<exists>w. byteSize 6 = Num (int w) \<and>
        generateSecureRandomNumber 6 (sconst 3) =
               (if js_ge (parseInt16 (toString_hex (stake w (sconst 3)))) (Num 6)
                then generateSecureRandomNumber 6 (sdrop w (sconst 3))
                else Some (Inr (parseInt16 (toString_hex (stake w (sconst 3)))), sdrop w (sconst 3))) \<and>
        card {buf :: byte list. length buf = w} = 2 ^ (8 * w) \<and>
        card {buf :: byte list. length buf = w \<and>
                \<not> js_ge (parseInt16 (toString_hex buf)) (Num 6)} = nat 6 \<and>
        6 \<le> (2::int) ^ (8 * w) \<and> (2::int) ^ (8 * w) < 256 * 6)"
proof -
  have h1: "(1::int) \<le> 6" by simp
  have h2: "(6::int) \<le> 2 ^ 48" by simp
  from byteSize_candidate_space [OF h1 h2, of "sconst 3"] h1 h2 show ?thesis by blast
qed

section \<open>Ranges that are not positive\<close>

text \<open>
  C4: for every range \<open>n \<le> 0\<close>, \<open>generateSecureRandomNumber(n)\<close> throws at once: the byte
  width is \<open>-Infinity\<close> or \<open>NaN\<close>, the first call of \<open>crypto.randomBytes\<close> rejects it with
  its range error, and the entropy stream is as it was; no value is returned.
\<close>

theorem generateSecureRandomNumber_nonpositive_fails:
  assumes "n \<le> 0"
  shows "generateSecureRandomNumber n s = Some (Inl ERR_OUT_OF_RANGE, s) \<and>
         randomBytes (byteSize n) s = (Inl ERR_OUT_OF_RANGE, s)"
proof -
  have "randomBytes (byteSize n) s = (Inl ERR_OUT_OF_RANGE, s)"
    using assms by (cases "n = 0") (simp_all add: byteSize_def)
  with generateSecureRandomNumber_error [OF assms] show ?thesis by simp
qed

theorem generateSecureRandomNumber_nonpositive_fails_witness:
  "(0::int) \<le> 0 \<and> (- 3::int) \<le> 0 \<and>
   generateSecureRandomNumber 0 (sconst 7) = Some (Inl ERR_OUT_OF_RANGE, sconst 7) \<and>
   generateSecureRandomNumber (- 3) (sconst 7) = Some (Inl ERR_OUT_OF_RANGE, sconst 7)"
  using generateSecureRandomNumber_nonpositive_fails [of 0 "sconst 7"]
    generateSecureRandomNumber_nonpositive_fails [of "- 3" "sconst 7"]
  by simp

section \<open>Constructing and rolling a die\<close>

text \<open>
  C5 as stated fails: the constructor of \<open>Dice\<close> checks nothing, and \<open>new Dice([])\<close>
  returns a die with no face.
\<close>

theorem Dice_new_empty_counterexample:
  "Dice_new ([] :: int list) = Inr \<lparr>values' = []\<rparr> \<and> \<not> isl (Dice_new ([] :: int list))"
  by (simp add: Dice_new_def)

text \<open>
  C5, amended: constructing a die succeeds for every face list, the empty one too; a die
  with no face fails at its first \<open>roll()\<close>, with the range error of \<open>crypto.randomBytes\<close>
  and before any entropy is drawn. (The dice of the program come from \<open>parseDiceConfig\<close>,
  which accepts six faces only.)
\<close>

theorem Dice_empty_fails_at_roll:
  "Dice_new vs = Inr \<lparr>values' = vs\<rparr> \<and>
   roll \<lparr>values' = []\<rparr> s = Some (Inl ERR_OUT_OF_RANGE, s)"
  by (simp add: Dice_new_def roll_def generateSecureRandomNumber_error)

lemma roll_member:
  assumes "2 \<le> length vs" and "roll \<lparr>values' = vs\<rparr> s = Some (r, s')"
  shows "\<exists>i<length vs. r = Inr (Some (vs ! i))"
proof -
  from assms(2) obtain q where g: "generateSecureRandomNumber (int (length vs)) s = Some (q, s')"
    and r: "r = (case q of Inl e \<Rightarrow> Inl e | Inr i \<Rightarrow> Inr (array_get vs i))"
    by (auto simp: roll_def split: option.splits prod.splits sum.splits)
  have "2 \<le> int (length vs)" using assms(1) by simp
  from generateSecureRandomNumber_in_range [OF this g] obtain c where
    c: "q = Inr (Num c)" "0 \<le> c" "c < int (length vs)" by blast
  then have "nat c < length vs \<and> r = Inr (Some (vs ! nat c))"
    using r by simp
  then show ?thesis by blast
qed

lemma roll_terminates:
  assumes "2 \<le> length vs" and "byteSize (int (length vs)) = Num (int w)"
    and "bigEndian (stake w (sdrop (k * w) s)) < length vs"
  shows "\<exists>i s'. i < length vs \<and> roll \<lparr>values' = vs\<rparr> s = Some (Inr (Some (vs ! i)), s')"
proof -
  have "2 \<le> int (length vs)" using assms(1) by simp
  moreover have "int (bigEndian (stake w (sdrop (k * w) s))) < int (length vs)"
    using assms(3) by simp
  ultimately obtain c s' where
    g: "generateSecureRandomNumber (int (length vs)) s = Some (Inr (Num c), s')"
    and c: "0 \<le> c" "c < int (length vs)"
    using generateSecureRandomNumber_terminates [OF _ assms(2)] by blast
  from g c have "nat c < length vs \<and>
      roll \<lparr>values' = vs\<rparr> s = Some (Inr (Some (vs ! nat c)), s')"
    by (simp add: roll_def)
  then show ?thesis by blast
qed

lemma roll_example:
  assumes "roll \<lparr>values' = [2, 2, 4, 4, 9, 9 :: int]\<rparr> s = Some (r, s')"
  shows "r = Inr (Some 2) \<or> r = Inr (Some 4) \<or> r = Inr (Some 9)"
proof -
  have "\<exists>i<length [2, 2, 4, 4, 9, 9 :: int]. r = Inr (Some ([2, 2, 4, 4, 9, 9] ! i))"
    by (rule roll_member [OF _ assms]) simp
  then show ?thesis
    by (auto simp: Ex_less_Suc)
qed

text \<open>
  C6, at a die with one face. The claim: for every non-empty face list, \<open>roll()\<close> returns
  \<open>faces[sample(len(faces))]\<close>, an element of the list. With two faces or more the code
  does so whenever the sampler returns (\<open>roll_member\<close>, and \<open>roll_example\<close> for the die
  \<open>2,2,4,4,9,9\<close>). With one face the sampler returns \<open>NaN\<close> and \<open>values[NaN]\<close> is
  \<open>undefined\<close>: \<open>new Dice([5]).roll()\<close> returns \<open>undefined\<close> on every entropy stream.
\<close>

theorem roll_single_face_undefined:
  "roll \<lparr>values' = [5 :: int]\<rparr> s = Some (Inr None, s)"
  by (simp add: roll_def generateSecureRandomNumber_one)

section \<open>The order of the calls\<close>

lemma invoke_returns: "\<exists>v. invoke c this = (Inr v, this)"
  by (cases c)
     (simp_all add: getHMAC_def revealKey_def getComputerNumber_def calculateResult_def)

lemma invoke_all_returns: "\<exists>vs. invoke_all cs this = (Inr vs, this) \<and> length vs = length cs"
proof (induction cs)
  case Nil
  then show ?case by simp
next
  case (Cons c cs)
  obtain v where v: "invoke c this = (Inr v, this)" using invoke_returns by blast
  from Cons.IH obtain vs where "invoke_all cs this = (Inr vs, this)" "length vs = length cs"
    by blast
  with v show ?case by simp
qed

text \<open>
  C7 as stated fails: on a fresh instance, \<open>calculateResult\<close>, \<open>revealKey\<close> and
  \<open>getComputerNumber\<close> called before any \<open>getHMAC\<close> all return their values; nothing
  is thrown.
\<close>

theorem invoke_out_of_order_counterexample:
  "FairNumberProtocol_new mac0 2 (sconst 0) = Some (Inr protocol0, sconst 0) \<and>
   invoke_all [CalculateResult 1, RevealKey, GetComputerNumber] protocol0 =
     (Inr [JNumber (Num 1), JString (secretKey protocol0), JNumber (Num 0)], protocol0)"
  by (simp add: protocol0_constructed)
     (simp add: protocol0_def getHMAC_def revealKey_def getComputerNumber_def
       calculateResult_def)

text \<open>
  C7, amended: the commit step runs inside the constructor, so every instance that exists
  is committed, and the object keeps no protocol state: \<open>getHMAC\<close>, \<open>revealKey\<close>,
  \<open>getComputerNumber\<close> and \<open>calculateResult\<close> can be called in any order and any number
  of times, and every call returns a value; none throws.
\<close>

theorem invoke_all_never_throws:
  "\<exists>vs. invoke_all cs this = (Inr vs, this) \<and> length vs = length cs"
  by (rule invoke_all_returns)

section \<open>The commitment\<close>

text \<open>
  C8: \<open>generateHMAC\<close> is deterministic. In whatever state of the entropy source it is
  called, the digest for a key and a message is the same, the MAC of the key and of the
  message's decimal string under \<open>sha3-256\<close>, and the call draws no entropy.
\<close>

theorem generateHMAC_deterministic:
  "fst (generateHMAC m key message s1) = fst (generateHMAC m key message s2) \<and>
   fst (generateHMAC m key message s1) = m ''sha3-256'' key (number_toString message) \<and>
   snd (generateHMAC m key message s1) = s1"
  by (simp add: generateHMAC_def Hmac_digest_def Hmac_update_def createHmac_def)

text \<open>
  C9: \<open>getHMAC\<close>, \<open>revealKey\<close>, \<open>getComputerNumber\<close> and \<open>calculateResult\<close> each leave
  the object as it was, and so after any sequence of these calls the range, the secret
  key, the committed number and the HMAC are those the constructor set.
\<close>

theorem FairNumberProtocol_fields_unchanged:
  "snd (getHMAC this) = this \<and> snd (revealKey this) = this \<and>
   snd (getComputerNumber this) = this \<and> snd (calculateResult this u) = this \<and>
   range' (snd (invoke_all cs this)) = range' this \<and>
   secretKey (snd (invoke_all cs this)) = secretKey this \<and>
   computerNumber (snd (invoke_all cs this)) = computerNumber this \<and>
   hmac (snd (invoke_all cs this)) = hmac this"
proof -
  obtain vs where "invoke_all cs this = (Inr vs, this)" using invoke_all_returns by blast
  then show ?thesis
    by (simp add: getHMAC_def revealKey_def getComputerNumber_def calculateResult_def)
qed

section \<open>The dice of the command line\<close>

lemma map_throw_Inr:
  assumes "map_throw f xs = Inr ys" and "\<And>x y. f x = Inr y \<Longrightarrow> P y"
  shows "length ys = length xs \<and> list_all P ys"
  using assms(1)
proof (induction xs arbitrary: ys)
  case Nil
  then show ?case by simp
next
  case (Cons x xs)
  from Cons.prems obtain y zs where y: "f x = Inr y" and zs: "map_throw f xs = Inr zs"
    and ys: "ys = y # zs"
    by (auto split: sum.splits)
  from Cons.IH [OF zs] assms(2) [OF y] ys show ?case by simp
qed

lemma map_throw_Dice_new:
  "map_throw Dice_new xs = Inr (map (\<lambda>vs. \<lparr>values' = vs\<rparr>) xs)"
  by (induction xs) (simp_all add: Dice_new_def)

lemma split_example:
  "split CHR '','' ''2,2,4,4,9,9'' = [''2'', ''2'', ''4'', ''4'', ''9'', ''9'']"
  "split CHR '','' ''6,8,1,1,8,6'' = [''6'', ''8'', ''1'', ''1'', ''8'', ''6'']"
  "split CHR '','' ''7,5,3,7,5,3'' = [''7'', ''5'', ''3'', ''7'', ''5'', ''3'']"
  by simp_all

lemma parseDiceConfig_example:
  "parseDiceConfig Number_decimal number_isNaN [''2,2,4,4,9,9'', ''6,8,1,1,8,6'', ''7,5,3,7,5,3'']
     = Inr [[Num 2, Num 2, Num 4, Num 4, Num 9, Num 9],
            [Num 6, Num 8, Num 1, Num 1, Num 8, Num 6],
            [Num 7, Num 5, Num 3, Num 7, Num 5, Num 3]]"
  by (simp add: parseDiceConfig_def split_example Number_decimal_def number_isNaN_def)

lemma parseDiceConfig_rejects:
  "parseDiceConfig Number_decimal number_isNaN [''1,2,3,4,5,6'', ''1,2,3,4,5,6''] =
     Inl (Error ''Invalid number of dice. Provide at least 3 sets of 6 integers.'')"
  "isl (parseDiceConfig Number_decimal number_isNaN [''1,2,3,4,5,6'', ''1,2,3'', ''1,2,3,4,5,6''])"
  "isl (parseDiceConfig Number_decimal number_isNaN [''1,2,3,4,5,6'', ''1,2,3,4,5,x'', ''1,2,3,4,5,6''])"
  by (simp_all add: parseDiceConfig_def Number_decimal_def number_isNaN_def)

text \<open>
  C10: whenever \<open>parseDiceConfig\<close> returns (it throws otherwise), its list holds at least
  three dice and every die has exactly six faces, none of them \<open>NaN\<close>; \<open>main\<close> then builds
  the game from exactly these lists, so every \<open>Dice\<close> of the program has six faces.
\<close>

theorem parseDiceConfig_invariant:
  assumes "parseDiceConfig Number isNaN args = Inr dice"
  shows "3 \<le> length dice \<and>
         list_all (\<lambda>d. length d = 6 \<and> \<not> list_ex isNaN d) dice \<and>
         main_game Number isNaN args = Inr \<lparr>diceSet = map (\<lambda>vs. \<lparr>values' = vs\<rparr>) dice\<rparr> \<and>
         list_all (\<lambda>d. length (values' d) = 6) (map (\<lambda>vs. \<lparr>values' = vs\<rparr>) dice)"
proof -
  let ?f = "\<lambda>arg.
           let dice = map Number (split CHR '','' arg) in
           if length dice \<noteq> 6 \<or> list_ex isNaN dice
           then Inl (Error (''Invalid dice format: '' @ [CHR 0x22] @ arg @ [CHR 0x22] @
                  ''. Each dice should contain exactly 6 integers.''))
           else Inr dice"
  from assms have len: "\<not> length args < 3" and m: "map_throw ?f args = Inr dice"
    by (auto simp: parseDiceConfig_def split: if_splits)
  have "length dice = length args \<and> list_all (\<lambda>d. length d = 6 \<and> \<not> list_ex isNaN d) dice"
  proof (rule map_throw_Inr [OF m])
    fix x y assume "?f x = Inr y"
    then show "length y = 6 \<and> \<not> list_ex isNaN y"
      by (auto simp: Let_def split: if_splits)
  qed
  then have a: "3 \<le> length dice" and b: "list_all (\<lambda>d. length d = 6 \<and> \<not> list_ex isNaN d) dice"
    using len by simp_all
  have c: "main_game Number isNaN args = Inr \<lparr>diceSet = map (\<lambda>vs. \<lparr>values' = vs\<rparr>) dice\<rparr>"
    by (simp add: main_game_def assms GameFlow_new_def map_throw_Dice_new)
  have d: "list_all (\<lambda>d. length (values' d) = 6) (map (\<lambda>vs. \<lparr>values' = vs\<rparr>) dice)"
    using b by (induction dice) simp_all
  from a b c d show ?thesis by blast
qed

theorem parseDiceConfig_invariant_witness:
  "parseDiceConfig Number_decimal number_isNaN [''2,2,4,4,9,9'', ''6,8,1,1,8,6'', ''7,5,3,7,5,3'']
     = Inr [[Num 2, Num 2, Num 4, Num 4, Num 9, Num 9],
            [Num 6, Num 8, Num 1, Num 1, Num 8, Num 6],
            [Num 7, Num 5, Num 3, Num 7, Num 5, Num 3]] \<and>
   main_game Number_decimal number_isNaN [''2,2,4,4,9,9'', ''6,8,1,1,8,6'', ''7,5,3,7,5,3'']
     = Inr \<lparr>diceSet = [\<lparr>values' = [Num 2, Num 2, Num 4, Num 4, Num 9, Num 9]\<rparr>,
                       \<lparr>values' = [Num 6, Num 8, Num 1, Num 1, Num 8, Num 6]\<rparr>,
                       \<lparr>values' = [Num 7, Num 5, Num 3, Num 7, Num 5, Num 3]\<rparr>]\<rparr>"
  using parseDiceConfig_example parseDiceConfig_invariant [OF parseDiceConfig_example]
  by simp

end
